theory Spec2Isabelle
  imports Main
begin

section \<open>The JavaScript built-ins the two functions call\<close>

text \<open>
  The two functions of \<^verbatim>\<open>src/app/page.tsx\<close> studied here are
  \<^verbatim>\<open>splitGenesToQuads\<close> (the genome decoder) and
  \<^verbatim>\<open>deriveTraitRelation\<close> (the trait-relation classifier).
  Both are built from a handful of ECMAScript library operations, which are embedded first.

  A JavaScript string is a sequence of UTF-16 code units. It is modelled by \<open>string\<close>;
  a \<open>char\<close> stands for the code unit of the same number, so the model ranges over the
  strings whose code units are below 256. An optional parameter (\<^verbatim>\<open>x?: string\<close>)
  is a \<open>string option\<close>, with \<open>None\<close> for \<^verbatim>\<open>undefined\<close>.
  A \<^verbatim>\<open>bigint\<close> is an \<open>int\<close>. An exception is the \<open>Inl\<close> side of a sum.
\<close>

datatype js_error = SyntaxError

subsection \<open>\<^verbatim>\<open>BigInt(string)\<close>\<close>

text \<open>
  \<^verbatim>\<open>BigInt(s)\<close> on a string runs the abstract operation StringToBigInt: the text is
  parsed as a StringIntegerLiteral, that is, optional white space around either nothing
  (value 0), or decimal digits with an optional sign, or an unsigned binary, octal or
  hexadecimal literal with prefix \<^verbatim>\<open>0b\<close>, \<^verbatim>\<open>0o\<close>, \<^verbatim>\<open>0x\<close>. No numeric separator and no
  suffix is accepted. A text that does not parse makes \<^verbatim>\<open>BigInt\<close> throw SyntaxError.
\<close>

definition is_StrWhiteSpaceChar :: "char \<Rightarrow> bool" where
  \<comment> \<open>TAB, LF, VT, FF, CR, SP, NBSP: the white space and line terminators below 256\<close>
  "is_StrWhiteSpaceChar c = (of_char c \<in> {9, 10, 11, 12, 13, 32, 160 :: nat})"

definition trim_ws :: "string \<Rightarrow> string" where
  "trim_ws s = rev (dropWhile is_StrWhiteSpaceChar (rev (dropWhile is_StrWhiteSpaceChar s)))"

definition hex_digit_val :: "char \<Rightarrow> nat option" where
  "hex_digit_val c = (let n = of_char c :: nat in
     if 48 \<le> n \<and> n \<le> 57 then Some (n - 48)
     else if 97 \<le> n \<and> n \<le> 102 then Some (n - 87)
     else if 65 \<le> n \<and> n \<le> 70 then Some (n - 55)
     else None)"

definition digit_in_radix :: "nat \<Rightarrow> char \<Rightarrow> nat option" where
  "digit_in_radix r c =
     (case hex_digit_val c of
        None \<Rightarrow> None
      | Some d \<Rightarrow> if d < r then Some d else None)"

fun digits_value :: "nat \<Rightarrow> nat \<Rightarrow> string \<Rightarrow> nat option" where
  "digits_value r acc [] = Some acc"
| "digits_value r acc (c # cs) =
     (case digit_in_radix r c of
        None \<Rightarrow> None
      | Some d \<Rightarrow> digits_value r (acc * r + d) cs)"

definition parse_digits :: "nat \<Rightarrow> string \<Rightarrow> int option" where
  \<comment> \<open>one or more digits of the radix\<close>
  "parse_digits r cs = (if cs = [] then None else map_option int (digits_value r 0 cs))"

definition radix_of_prefix :: "string \<Rightarrow> nat option" where
  "radix_of_prefix t =
     (case t of
        c # d # _ \<Rightarrow>
          if c = CHR ''0'' \<and> (d = CHR ''x'' \<or> d = CHR ''X'') then Some 16
          else if c = CHR ''0'' \<and> (d = CHR ''o'' \<or> d = CHR ''O'') then Some 8
          else if c = CHR ''0'' \<and> (d = CHR ''b'' \<or> d = CHR ''B'') then Some 2
          else None
      | _ \<Rightarrow> None)"

definition StringToBigInt :: "string \<Rightarrow> int option" where
  "StringToBigInt str =
     (let t = trim_ws str in
      if t = [] then Some 0
      else case radix_of_prefix t of
        Some r \<Rightarrow> parse_digits r (drop 2 t)
      | None \<Rightarrow>
          if hd t = CHR ''+'' then parse_digits 10 (tl t)
          else if hd t = CHR ''-'' then map_option uminus (parse_digits 10 (tl t))
          else parse_digits 10 t)"

definition BigInt :: "string \<Rightarrow> js_error + int" where
  "BigInt s = (case StringToBigInt s of None \<Rightarrow> Inl SyntaxError | Some n \<Rightarrow> Inr n)"

subsection \<open>\<^verbatim>\<open>BigInt.prototype.toString(16)\<close>\<close>

definition hex_char :: "nat \<Rightarrow> char" where
  "hex_char d = ''0123456789abcdef'' ! d"

function nat_to_hex :: "nat \<Rightarrow> string" where
  "nat_to_hex n =
     (if n < 16 then [hex_char n] else nat_to_hex (n div 16) @ [hex_char (n mod 16)])"
  by pat_completeness auto
termination
  by (relation "measure (\<lambda>n. n)") auto

declare nat_to_hex.simps [simp del]

definition toString16 :: "int \<Rightarrow> string" where
  \<comment> \<open>a negative value is rendered as a minus sign and the digits of its magnitude\<close>
  "toString16 n = (if n < 0 then CHR ''-'' # nat_to_hex (nat (- n)) else nat_to_hex (nat n))"

subsection \<open>\<^verbatim>\<open>padStart\<close>, \<^verbatim>\<open>split("")\<close>, \<^verbatim>\<open>slice\<close>, \<^verbatim>\<open>join("")\<close>, \<^verbatim>\<open>at\<close>\<close>

definition padStart :: "string \<Rightarrow> nat \<Rightarrow> string \<Rightarrow> string" where
  "padStart s maxLength fillString =
     (if maxLength \<le> length s \<or> fillString = [] then s
      else (let fillLen = maxLength - length s
            in take fillLen (concat (replicate fillLen fillString)) @ s))"

definition split_chars :: "string \<Rightarrow> string list" where
  \<comment> \<open>\<^verbatim>\<open>s.split("")\<close>: one string per code unit\<close>
  "split_chars s = map (\<lambda>c. [c]) s"

definition rel_index :: "nat \<Rightarrow> int \<Rightarrow> nat" where
  \<comment> \<open>a relative index of \<^verbatim>\<open>slice\<close>: negative counts from the end, then clamped\<close>
  "rel_index len i = (if i < 0 then nat (max (int len + i) 0) else nat (min i (int len)))"

definition slice :: "'a list \<Rightarrow> int \<Rightarrow> int \<Rightarrow> 'a list" where
  "slice xs start fin =
     (let k = rel_index (length xs) start; final = rel_index (length xs) fin
      in take (final - k) (drop k xs))"

definition slice_from :: "'a list \<Rightarrow> int \<Rightarrow> 'a list" where
  \<comment> \<open>\<^verbatim>\<open>xs.slice(start)\<close>: the end defaults to the length\<close>
  "slice_from xs start = slice xs start (int (length xs))"

definition join_empty :: "string list \<Rightarrow> string" where
  "join_empty xs = concat xs"

definition String_at :: "string \<Rightarrow> int \<Rightarrow> string option" where
  "String_at s i =
     (let len = int (length s); k = (if 0 \<le> i then i else len + i)
      in if k < 0 \<or> len \<le> k then None else Some [s ! nat k])"

definition truthy :: "string option \<Rightarrow> bool" where
  \<comment> \<open>\<^verbatim>\<open>undefined\<close> and the empty string are falsy, every other string is truthy\<close>
  "truthy v = (case v of None \<Rightarrow> False | Some s \<Rightarrow> s \<noteq> [])"

section \<open>The genome decoder \<^verbatim>\<open>splitGenesToQuads\<close>\<close>

text \<open>
  The \<^verbatim>\<open>for\<close> loop counts \<open>i\<close> from 0 to 11 and puts each slice in front of
  \<open>groups\<close> (\<^verbatim>\<open>unshift\<close>).
\<close>

function quads_loop :: "string list \<Rightarrow> nat \<Rightarrow> string list \<Rightarrow> string list" where
  "quads_loop last48 i groups =
     (if i < 12 then
        (let start = int (length last48) - (int i + 1) * 4
         in quads_loop last48 (i + 1) (join_empty (slice last48 start (start + 4)) # groups))
      else groups)"
  by pat_completeness auto
termination
  by (relation "measure (\<lambda>(last48, i, groups). 12 - i)") auto

declare quads_loop.simps [simp del]

definition quads_of_bigint :: "int \<Rightarrow> string list" where
  \<comment> \<open>the statements of the \<^verbatim>\<open>try\<close> block after the call of \<^verbatim>\<open>BigInt\<close>\<close>
  "quads_of_bigint big =
     (let hex = padStart (toString16 big) 64 ''0'';
          nibbles = split_chars hex;
          last48 = slice_from nibbles (- 48)
      in quads_loop last48 0 [])"

definition splitGenesToQuads_try :: "string \<Rightarrow> js_error + string list" where
  "splitGenesToQuads_try genesBigIntString =
     (case BigInt genesBigIntString of
        Inl e \<Rightarrow> Inl e
      | Inr big \<Rightarrow> Inr (quads_of_bigint big))"

definition splitGenesToQuads :: "string \<Rightarrow> js_error + string list" where
  \<comment> \<open>\<^verbatim>\<open>try { ... } catch { return []; }\<close>\<close>
  "splitGenesToQuads genesBigIntString =
     (case splitGenesToQuads_try genesBigIntString of
        Inl e \<Rightarrow> Inr []
      | Inr groups \<Rightarrow> Inr groups)"

subsection \<open>The decoder as a transition system\<close>

text \<open>
  The same function once more, statement by statement, as a step relation on the program
  points of the source: \<open>Call\<close> is the entry with the argument, \<open>Loop\<close> is the test of the
  \<^verbatim>\<open>for\<close> loop with the values of \<^verbatim>\<open>last48\<close>, \<^verbatim>\<open>i\<close> and \<^verbatim>\<open>groups\<close>, and
  \<open>Return\<close> is the function having returned an array. The rules are the branches of the
  source: the \<^verbatim>\<open>try\<close> block up to the loop when \<^verbatim>\<open>BigInt\<close> returns, the \<^verbatim>\<open>catch\<close>
  when it throws, one iteration of the loop, and the exit of the loop. A run of the decoder on
  an input is a sequence of steps from \<open>Call\<close> to \<open>Return\<close>.
\<close>

datatype config =
    Call string
  | Loop "string list" nat "string list"
  | Return "string list"

inductive decoder_step :: "config \<Rightarrow> config \<Rightarrow> bool" where
  try_ok:
    "BigInt genesBigIntString = Inr big \<Longrightarrow>
     hex = padStart (toString16 big) 64 ''0'' \<Longrightarrow>
     nibbles = split_chars hex \<Longrightarrow>
     last48 = slice_from nibbles (- 48) \<Longrightarrow>
     decoder_step (Call genesBigIntString) (Loop last48 0 [])"
| try_catch:
    "BigInt genesBigIntString = Inl e \<Longrightarrow>
     decoder_step (Call genesBigIntString) (Return [])"
| loop_body:
    "i < 12 \<Longrightarrow>
     start = int (length last48) - (int i + 1) * 4 \<Longrightarrow>
     decoder_step (Loop last48 i groups)
       (Loop last48 (i + 1) (join_empty (slice last48 start (start + 4)) # groups))"
| loop_exit:
    "\<not> i < 12 \<Longrightarrow> decoder_step (Loop last48 i groups) (Return groups)"

code_pred decoder_step .

definition decoder_run :: "string \<Rightarrow> string list \<Rightarrow> bool" where
  "decoder_run genesBigIntString result =
     decoder_step\<^sup>*\<^sup>* (Call genesBigIntString) (Return result)"

section \<open>The trait-relation classifier \<^verbatim>\<open>deriveTraitRelation\<close>\<close>

datatype TraitRelation =
  allShare | parentsOnlyShare | matronKittenShare | sireKittenShare | mutation

definition opt_at_last :: "string option \<Rightarrow> string option" where
  \<comment> \<open>\<^verbatim>\<open>quad?.at(-1)\<close>\<close>
  "opt_at_last quad = (case quad of None \<Rightarrow> None | Some q \<Rightarrow> String_at q (- 1))"

definition deriveTraitRelation ::
  "string option \<Rightarrow> string option \<Rightarrow> string option \<Rightarrow> TraitRelation" where
  "deriveTraitRelation matronQuad sireQuad kittenQuad =
     (let m = opt_at_last matronQuad;
          s = opt_at_last sireQuad;
          k = opt_at_last kittenQuad
      in if truthy m \<and> truthy s \<and> truthy k then
           (if m = s \<and> s = k then allShare
            else if m = s \<and> k \<noteq> m then parentsOnlyShare
            else if m = k \<and> s \<noteq> k then matronKittenShare
            else if s = k \<and> m \<noteq> k then sireKittenShare
            else mutation)
         else mutation)"

section \<open>Notions of the specification\<close>

text \<open>
  A valid non-negative decimal string is a non-empty string of the digits 0 to 9; its value
  is read positionally. The dominant nibble of a trait group is its last character.
\<close>

definition is_DecimalDigit :: "char \<Rightarrow> bool" where
  "is_DecimalDigit c = (48 \<le> (of_char c :: nat) \<and> (of_char c :: nat) \<le> 57)"

definition decimal_string :: "string \<Rightarrow> bool" where
  "decimal_string s = (s \<noteq> [] \<and> list_all is_DecimalDigit s)"

definition decimal_value :: "string \<Rightarrow> nat" where
  "decimal_value s = foldl (\<lambda>a c. 10 * a + (of_char c - 48)) 0 s"

definition is_HexDigit :: "char \<Rightarrow> bool" where
  "is_HexDigit c = (hex_digit_val c \<noteq> None)"

definition dominant :: "string \<Rightarrow> char" where
  "dominant q = last q"

text \<open>
  The algorithm of the specification, in its words: the value is rendered in hexadecimal and
  padded on the left with zeros to 64 digits (\<open>spec_hex64\<close>), the rightmost 48 digits are
  kept (\<open>rightmost 48\<close>), and they are partitioned into 12 consecutive groups of 4 from the
  most significant end to the least significant one (\<open>spec_groups\<close>).

  Two auxiliary notions serve the proofs: \<open>group_at l j\<close> is the \<open>j\<close>-th group of four
  entries of a list of nibbles, joined, and \<open>hex_fixed k n\<close> is the rendering of
  \<open>n mod 16 ^ k\<close> with exactly \<open>k\<close> digits.
\<close>

definition group_at :: "string list \<Rightarrow> nat \<Rightarrow> string" where
  "group_at l j = concat (take 4 (drop (4 * j) l))"

primrec hex_fixed_rev :: "nat \<Rightarrow> nat \<Rightarrow> string" where
  "hex_fixed_rev 0 n = []"
| "hex_fixed_rev (Suc k) n = hex_char (n mod 16) # hex_fixed_rev k (n div 16)"

definition hex_fixed :: "nat \<Rightarrow> nat \<Rightarrow> string" where
  "hex_fixed k n = rev (hex_fixed_rev k n)"

definition spec_hex64 :: "nat \<Rightarrow> string" where
  "spec_hex64 n = (let h = nat_to_hex n in replicate (64 - length h) CHR ''0'' @ h)"

definition rightmost :: "nat \<Rightarrow> 'a list \<Rightarrow> 'a list" where
  "rightmost k xs = drop (length xs - k) xs"

definition spec_groups :: "string \<Rightarrow> string list" where
  "spec_groups w = map (\<lambda>j. take 4 (drop (4 * j) w)) [0..<12]"

definition spec_decode :: "string \<Rightarrow> string list" where
  "spec_decode s = spec_groups (rightmost 48 (spec_hex64 (decimal_value s)))"

section \<open>The loop of the decoder\<close>

text \<open>
  On a list of 48 nibbles, iteration \<open>i\<close> of the loop takes the group with index
  \<open>11 - i\<close> and puts it in front; after the 12 iterations the groups stand in the order
  of the list.
\<close>

lemma rel_index_nat: "a \<le> len \<Longrightarrow> rel_index len (int a) = a"
  by (simp add: rel_index_def)

lemma slice_nat: "a + n \<le> length xs \<Longrightarrow> slice xs (int a) (int (a + n)) = take n (drop a xs)"
  by (simp only: slice_def Let_def rel_index_nat [of a "length xs"] rel_index_nat [of "a + n" "length xs"]) simp

lemma quads_loop_step:
  assumes "length l = 48" "i < 12"
  shows "quads_loop l i acc = quads_loop l (Suc i) (group_at l (11 - i) # acc)"
proof -
  let ?start = "int (length l) - (int i + 1) * 4"
  let ?k = "4 * (11 - i)"
  have s: "?start = int ?k" using assms by simp
  have "slice l (int ?k) (int (?k + 4)) = take 4 (drop ?k l)"
    using assms by (intro slice_nat) simp
  moreover have "int (?k + 4) = ?start + 4"
    using assms by simp
  ultimately have "slice l ?start (?start + 4) = take 4 (drop ?k l)"
    by (simp only: s)
  then show ?thesis
    using assms(2) by (subst quads_loop.simps) (simp add: Let_def join_empty_def group_at_def)
qed

lemma quads_loop_closed:
  "length l = 48 \<Longrightarrow> i + d = 12 \<Longrightarrow>
   quads_loop l i acc = map (group_at l) [0..<d] @ acc"
proof (induction d arbitrary: i acc)
  case 0
  then show ?case by (subst quads_loop.simps) simp
next
  case (Suc d)
  from Suc.prems have lt: "i < 12" and d: "11 - i = d" and nx: "Suc i + d = 12"
    by simp_all
  have "quads_loop l i acc = quads_loop l (Suc i) (group_at l d # acc)"
    using quads_loop_step [OF Suc.prems(1) lt, of acc] by (simp only: d)
  also have "\<dots> = map (group_at l) [0..<d] @ group_at l d # acc"
    by (rule Suc.IH [OF Suc.prems(1) nx])
  finally show ?case by simp
qed

lemma quads_loop_48: "length l = 48 \<Longrightarrow> quads_loop l 0 [] = map (group_at l) [0..<12]"
  using quads_loop_closed [of l 0 12 "[]"] by simp

section \<open>Hexadecimal digits\<close>

text \<open>
  The last \<open>k\<close> characters of a rendering padded with zeros are the \<open>k\<close>-digit rendering
  of the value modulo \<open>16 ^ k\<close>, as long as the padded rendering has at least \<open>k\<close>
  characters. With this the \<^verbatim>\<open>try\<close> block is put in closed form for every non-negative
  value (\<open>quads_of_bigint_nat\<close>), and it returns 12 groups for every value.
\<close>

lemma length_hex_fixed_rev: "length (hex_fixed_rev k n) = k"
  by (induction k arbitrary: n) simp_all

lemma hex_fixed_rev_0: "hex_fixed_rev k 0 = replicate k CHR ''0''"
  by (induction k) (simp_all add: hex_char_def)

lemma hex_fixed_rev_mod: "hex_fixed_rev k (n mod 16 ^ k) = hex_fixed_rev k n"
proof (induction k arbitrary: n)
  case 0
  show ?case by simp
next
  case (Suc k)
  have a: "n mod 16 ^ Suc k mod 16 = n mod 16"
    by (simp add: mod_mod_cancel)
  have b: "n mod 16 ^ Suc k div 16 = (n div 16) mod 16 ^ k"
    by (simp add: mod_mult2_eq)
  show ?case using Suc [of "n div 16"] by (simp only: hex_fixed_rev.simps a b)
qed

lemma take_rev_nat_to_hex:
  "k \<le> length (nat_to_hex n) + z \<Longrightarrow>
   take k (rev (nat_to_hex n) @ replicate z CHR ''0'') = hex_fixed_rev k n"
proof (induction k arbitrary: n z)
  case 0
  show ?case by simp
next
  case (Suc k)
  show ?case
  proof (cases "n < 16")
    case True
    then have h: "nat_to_hex n = [hex_char n]" by (simp add: nat_to_hex.simps)
    from Suc.prems h have "k \<le> z" by simp
    with True h show ?thesis by (simp add: hex_fixed_rev_0)
  next
    case False
    then have h: "nat_to_hex n = nat_to_hex (n div 16) @ [hex_char (n mod 16)]"
      by (subst nat_to_hex.simps) simp
    from Suc.prems h have "k \<le> length (nat_to_hex (n div 16)) + z" by simp
    from Suc.IH [OF this] h show ?thesis by simp
  qed
qed

lemma concat_replicate_single: "concat (replicate z [c]) = replicate z c"
  by (induction z) simp_all

lemma padStart_zero: "padStart s 64 ''0'' = replicate (64 - length s) CHR ''0'' @ s"
  by (simp add: padStart_def Let_def concat_replicate_single)

lemma length_padStart_zero: "64 \<le> length (padStart s 64 ''0'')"
  by (simp add: padStart_zero)

lemma slice_from_neg:
  "0 < k \<Longrightarrow> k \<le> length xs \<Longrightarrow> slice_from xs (- int k) = rightmost k xs"
  by (simp add: slice_from_def slice_def rel_index_def Let_def rightmost_def nat_diff_distrib)

lemma rightmost_spec_hex64: "rightmost 48 (spec_hex64 n) = hex_fixed 48 n"
proof -
  let ?h = "nat_to_hex n" and ?z = "64 - length (nat_to_hex n)"
  have "48 \<le> length ?h + ?z" by simp
  then have "take 48 (rev ?h @ replicate ?z CHR ''0'') = hex_fixed_rev 48 n"
    by (rule take_rev_nat_to_hex)
  then have "take 48 (rev (spec_hex64 n)) = hex_fixed_rev 48 n"
    by (simp add: spec_hex64_def Let_def)
  then show ?thesis
    by (simp add: rightmost_def hex_fixed_def take_rev rev_swap)
qed

lemma group_at_split_chars: "group_at (split_chars w) j = take 4 (drop (4 * j) w)"
proof -
  have c: "concat (map (\<lambda>c. [c]) xs) = xs" for xs :: string
    by (induction xs) simp_all
  show ?thesis
    by (simp add: group_at_def split_chars_def take_map drop_map c)
qed

lemma quads_of_padded:
  assumes "64 \<le> length hex"
  shows "quads_loop (slice_from (split_chars hex) (- 48)) 0 [] = spec_groups (rightmost 48 hex)"
proof -
  have "slice_from (split_chars hex) (- int 48) = rightmost 48 (split_chars hex)"
    using assms by (intro slice_from_neg) (simp_all add: split_chars_def)
  then have l: "slice_from (split_chars hex) (- 48) = split_chars (rightmost 48 hex)"
    by (simp add: rightmost_def split_chars_def drop_map)
  have "length (split_chars (rightmost 48 hex)) = 48"
    using assms by (simp add: rightmost_def split_chars_def)
  then show ?thesis
    unfolding l by (simp add: quads_loop_48 group_at_split_chars spec_groups_def)
qed

lemma quads_of_bigint_nat: "quads_of_bigint (int n) = spec_groups (rightmost 48 (spec_hex64 n))"
proof -
  have "padStart (toString16 (int n)) 64 ''0'' = spec_hex64 n"
    by (simp add: toString16_def padStart_zero spec_hex64_def Let_def)
  moreover have "64 \<le> length (spec_hex64 n)"
    by (simp add: spec_hex64_def Let_def)
  ultimately show ?thesis
    by (simp add: quads_of_bigint_def Let_def quads_of_padded)
qed

lemma length_quads_loop: "length (quads_loop l i acc) = (12 - i) + length acc"
proof (induction l i acc rule: quads_loop.induct)
  case (1 last48 i groups)
  show ?case
  proof (cases "i < 12")
    case True
    then show ?thesis
      using "1.IH" [OF True refl] by (subst quads_loop.simps) (simp add: Let_def)
  next
    case False
    then show ?thesis by (subst quads_loop.simps) simp
  qed
qed

lemma length_quads_of_bigint: "length (quads_of_bigint big) = 12"
  by (simp add: quads_of_bigint_def Let_def length_quads_loop)

section \<open>Decimal strings\<close>

text \<open>
  \<^verbatim>\<open>BigInt\<close> accepts a non-empty string of decimal digits as it stands: nothing is trimmed,
  no radix prefix and no sign is read, and the value is the decimal one.
\<close>

lemma digit_not_ws: "is_DecimalDigit c \<Longrightarrow> \<not> is_StrWhiteSpaceChar c"
  by (auto simp add: is_DecimalDigit_def is_StrWhiteSpaceChar_def)

lemma digit_in_radix_10: "is_DecimalDigit c \<Longrightarrow> digit_in_radix 10 c = Some (of_char c - 48)"
  by (auto simp add: is_DecimalDigit_def digit_in_radix_def hex_digit_val_def Let_def)

lemma digit_not_special:
  assumes "is_DecimalDigit c"
  shows "c \<noteq> CHR ''+''" "c \<noteq> CHR ''-''" "c \<noteq> CHR ''x''" "c \<noteq> CHR ''X''"
    "c \<noteq> CHR ''o''" "c \<noteq> CHR ''O''" "c \<noteq> CHR ''b''" "c \<noteq> CHR ''B''"
  using assms by (auto simp add: is_DecimalDigit_def)

lemma digits_value_decimal:
  "list_all is_DecimalDigit s \<Longrightarrow>
   digits_value 10 acc s = Some (foldl (\<lambda>a c. 10 * a + (of_char c - 48)) acc s)"
  by (induction s arbitrary: acc) (simp_all add: digit_in_radix_10 mult.commute)

lemma trim_ws_decimal: "decimal_string s \<Longrightarrow> trim_ws s = s"
proof -
  assume d: "decimal_string s"
  then have ne: "s \<noteq> []" and h: "is_DecimalDigit (hd s)" and l: "is_DecimalDigit (last s)"
    by (auto simp add: decimal_string_def list_all_iff)
  have 1: "dropWhile is_StrWhiteSpaceChar s = s"
    using ne h by (cases s) (simp_all add: digit_not_ws)
  have 2: "dropWhile is_StrWhiteSpaceChar (rev s) = rev s"
    using ne l by (cases s rule: rev_cases) (simp_all add: digit_not_ws)
  show ?thesis by (simp add: trim_ws_def 1 2)
qed

lemma radix_of_prefix_decimal:
  assumes "decimal_string s"
  shows "radix_of_prefix s = None"
proof (cases s)
  case Nil
  then show ?thesis by (simp add: radix_of_prefix_def)
next
  case outer: (Cons c t)
  show ?thesis
  proof (cases t)
    case Nil
    with outer show ?thesis by (simp add: radix_of_prefix_def)
  next
    case (Cons d r)
    with outer assms have "is_DecimalDigit d"
      by (simp add: decimal_string_def)
    from digit_not_special(3-8) [OF this] show ?thesis
      using outer Cons by (simp add: radix_of_prefix_def)
  qed
qed

lemma StringToBigInt_decimal:
  assumes "decimal_string s"
  shows "StringToBigInt s = Some (int (decimal_value s))"
proof -
  from assms have ne: "s \<noteq> []" and all: "list_all is_DecimalDigit s"
    and h: "is_DecimalDigit (hd s)"
    by (auto simp add: decimal_string_def list_all_iff)
  have "parse_digits 10 s = Some (int (decimal_value s))"
    using ne by (simp add: parse_digits_def digits_value_decimal [OF all] decimal_value_def)
  then show ?thesis
    using ne digit_not_special(1,2) [OF h]
    by (simp add: StringToBigInt_def Let_def trim_ws_decimal [OF assms]
        radix_of_prefix_decimal [OF assms])
qed

lemma splitGenesToQuads_decimal:
  "decimal_string s \<Longrightarrow> splitGenesToQuads s = Inr (spec_decode s)"
  by (simp add: splitGenesToQuads_def splitGenesToQuads_try_def BigInt_def
      StringToBigInt_decimal quads_of_bigint_nat spec_decode_def)

lemma hex_char_is_HexDigit: "d < 16 \<Longrightarrow> is_HexDigit (hex_char d)"
proof -
  assume "d < 16"
  then have "d = 0 \<or> d = 1 \<or> d = 2 \<or> d = 3 \<or> d = 4 \<or> d = 5 \<or> d = 6 \<or> d = 7 \<or>
      d = 8 \<or> d = 9 \<or> d = 10 \<or> d = 11 \<or> d = 12 \<or> d = 13 \<or> d = 14 \<or> d = 15"
    by arith
  then show ?thesis
    by (elim disjE) (simp_all add: hex_char_def is_HexDigit_def hex_digit_val_def)
qed

lemma hex_fixed_rev_HexDigit: "list_all is_HexDigit (hex_fixed_rev k n)"
  by (induction k arbitrary: n) (simp_all add: hex_char_is_HexDigit)

section \<open>Groups\<close>

text \<open>
  The groups of a window of 48 digits have 4 characters each and concatenate to the window.
  Reading a rendering back with the digit parser of \<^verbatim>\<open>BigInt\<close> gives the value it was
  rendered from.
\<close>

lemma upt_12: "[0..<12] = [0, 1, 2, 3, 4, 5, 6, 7, 8, 9, 10, 11]"
  by (simp add: upt_rec)

lemma concat_chunks: "concat (map (\<lambda>j. take k (drop (k * j) w)) [0..<m]) = take (k * m) w"
proof (induction m)
  case 0
  show ?case by simp
next
  case (Suc m)
  have "take (k * m) w @ take k (drop (k * m) w) = take (k * m + k) w"
    by (simp add: take_add)
  with Suc show ?case by (simp add: add.commute)
qed

lemma concat_spec_groups: "length w = 48 \<Longrightarrow> concat (spec_groups w) = w"
  by (simp add: spec_groups_def concat_chunks)

lemma length_rightmost: "k \<le> length xs \<Longrightarrow> length (rightmost k xs) = k"
  by (simp add: rightmost_def)

lemma length_spec_hex64: "64 \<le> length (spec_hex64 n)"
  by (simp add: spec_hex64_def Let_def)

lemma spec_groups_shape:
  assumes "length w = 48" "g \<in> set (spec_groups w)"
  shows "length g = 4 \<and> set g \<subseteq> set w"
proof -
  from assms(2) obtain j where j: "j < 12" and g: "g = take 4 (drop (4 * j) w)"
    by (auto simp add: spec_groups_def)
  have "set g \<subseteq> set w"
    unfolding g by (meson set_take_subset set_drop_subset subset_trans)
  moreover have "length g = 4"
    using assms(1) j by (simp add: g)
  ultimately show ?thesis by simp
qed

lemma hex_char_value: "d < 16 \<Longrightarrow> digit_in_radix 16 (hex_char d) = Some d"
proof -
  assume "d < 16"
  then have "d = 0 \<or> d = 1 \<or> d = 2 \<or> d = 3 \<or> d = 4 \<or> d = 5 \<or> d = 6 \<or> d = 7 \<or>
      d = 8 \<or> d = 9 \<or> d = 10 \<or> d = 11 \<or> d = 12 \<or> d = 13 \<or> d = 14 \<or> d = 15"
    by arith
  then show ?thesis
    by (elim disjE) (simp_all add: hex_char_def digit_in_radix_def hex_digit_val_def)
qed

lemma digits_value_append:
  "digits_value r acc (xs @ ys) =
     (case digits_value r acc xs of None \<Rightarrow> None | Some v \<Rightarrow> digits_value r v ys)"
  by (induction xs arbitrary: acc) (simp_all split: option.splits)

lemma nat_to_hex_value: "digits_value 16 0 (nat_to_hex n) = Some n"
proof (induction n rule: nat_to_hex.induct)
  case (1 n)
  show ?case
  proof (cases "n < 16")
    case True
    then show ?thesis by (subst nat_to_hex.simps) (simp add: hex_char_value)
  next
    case False
    then show ?thesis
      using "1.IH" by (subst nat_to_hex.simps) (simp add: digits_value_append hex_char_value)
  qed
qed

section \<open>Fixed-width rendering and evaluation at concrete inputs\<close>

lemma length_hex_fixed: "length (hex_fixed k n) = k"
  by (simp add: hex_fixed_def length_hex_fixed_rev)

lemma hex_fixed_HexDigit: "c \<in> set (hex_fixed k n) \<Longrightarrow> is_HexDigit c"
  using hex_fixed_rev_HexDigit [of k n] by (simp add: hex_fixed_def list_all_iff)

lemma hex_fixed_mod: "hex_fixed k (n mod 16 ^ k) = hex_fixed k n"
  by (simp add: hex_fixed_def hex_fixed_rev_mod)

lemma spec_decode_hex_fixed: "spec_decode s = spec_groups (hex_fixed 48 (decimal_value s))"
  by (simp add: spec_decode_def rightmost_spec_hex64)

lemma length_spec_groups: "length (spec_groups w) = 12"
  by (simp add: spec_groups_def)

lemma hex_fixed_value: "digits_value 16 0 (hex_fixed k n) = Some (n mod 16 ^ k)"
proof (induction k arbitrary: n)
  case 0
  show ?case by (simp add: hex_fixed_def)
next
  case (Suc k)
  have "hex_fixed (Suc k) n = hex_fixed k (n div 16) @ [hex_char (n mod 16)]"
    by (simp add: hex_fixed_def)
  moreover have "n div 16 mod 16 ^ k * 16 + n mod 16 = n mod 16 ^ Suc k"
    by (simp add: mod_mult2_eq)
  ultimately show ?case
    by (simp add: digits_value_append Suc hex_char_value)
qed

lemma window_value: "digits_value 16 0 (rightmost 48 (spec_hex64 n)) = Some (n mod 2 ^ 192)"
  by (simp add: rightmost_spec_hex64 hex_fixed_value)

lemma BigInt_abc: "BigInt ''abc'' = Inl SyntaxError"
  by (simp add: BigInt_def StringToBigInt_def trim_ws_def is_StrWhiteSpaceChar_def
      radix_of_prefix_def parse_digits_def digit_in_radix_def hex_digit_val_def Let_def)

lemma BigInt_empty: "BigInt [] = Inr 0"
  by (simp add: BigInt_def StringToBigInt_def trim_ws_def)

lemma replicate_numeral: "replicate (numeral k) x = x # replicate (pred_numeral k) x"
  by (simp add: numeral_eq_Suc)

lemma spec_groups_zero:
  "spec_groups (replicate 48 CHR ''0'') =
     [''0000'', ''0000'', ''0000'', ''0000'', ''0000'', ''0000'',
      ''0000'', ''0000'', ''0000'', ''0000'', ''0000'', ''0000'']"
  by (simp add: spec_groups_def upt_12 replicate_numeral)

lemma quads_of_bigint_0:
  "quads_of_bigint 0 =
     [''0000'', ''0000'', ''0000'', ''0000'', ''0000'', ''0000'',
      ''0000'', ''0000'', ''0000'', ''0000'', ''0000'', ''0000'']"
  using quads_of_bigint_nat [of 0]
  by (simp only: of_nat_0 rightmost_spec_hex64 hex_fixed_def hex_fixed_rev_0 rev_replicate
      spec_groups_zero)

lemma spec_decode_example:
  "spec_decode ''115792089237316195417293979057195601385746399497042312755972129615122237423628'' =
     [''0001'', ''0002'', ''0003'', ''0004'', ''0005'', ''0006'',
      ''0007'', ''0008'', ''0009'', ''000a'', ''000b'', ''000c'']"
proof -
  have v: "decimal_value ''115792089237316195417293979057195601385746399497042312755972129615122237423628''
      = 115792089237316195417293979057195601385746399497042312755972129615122237423628"
    by (simp add: decimal_value_def)
  have h: "nat_to_hex 115792089237316195417293979057195601385746399497042312755972129615122237423628
      = ''ffffffffffffffff000100020003000400050006000700080009000a000b000c''"
    by (simp add: nat_to_hex.simps hex_char_def)
  show ?thesis
    by (simp add: spec_decode_def v spec_hex64_def h rightmost_def spec_groups_def upt_12)
qed

section \<open>Runs of the decoder\<close>

text \<open>
  No two rules of the step relation apply to the same configuration with different results,
  and \<open>Return\<close> has no successor; so a configuration reaches at most one \<open>Return\<close>. The
  loop reaches the \<open>Return\<close> that the recursive function \<open>quads_loop\<close> computes, which makes
  the runs of the step relation and the function \<open>splitGenesToQuads\<close> agree.
\<close>

inductive_cases step_CallE: "decoder_step (Call s) c"
inductive_cases step_LoopE: "decoder_step (Loop l i g) c"
inductive_cases step_ReturnE: "decoder_step (Return r) c"

lemma decoder_step_deterministic:
  "decoder_step c c1 \<Longrightarrow> decoder_step c c2 \<Longrightarrow> c1 = c2"
  by (induction rule: decoder_step.induct) (auto elim!: step_CallE step_LoopE)

lemma Return_final: "\<not> decoder_step (Return r) c"
  by (auto elim: step_ReturnE)

lemma steps_from_Return: "decoder_step\<^sup>*\<^sup>* (Return r) c \<Longrightarrow> c = Return r"
  by (erule converse_rtranclpE) (simp_all add: Return_final)

lemma run_unique:
  "decoder_step\<^sup>*\<^sup>* c (Return r1) \<Longrightarrow> decoder_step\<^sup>*\<^sup>* c (Return r2) \<Longrightarrow> r1 = r2"
proof (induction rule: converse_rtranclp_induct)
  case base
  then show ?case by (auto dest: steps_from_Return)
next
  case (step c c')
  from step.prems show ?case
  proof (cases rule: converse_rtranclpE)
    case base
    with step.hyps(1) show ?thesis by (simp add: Return_final)
  next
    case (step c'')
    from decoder_step_deterministic [OF \<open>decoder_step c c'\<close> step(1)] step(2) step.IH
    show ?thesis by simp
  qed
qed

lemma loop_runs: "decoder_step\<^sup>*\<^sup>* (Loop l i g) (Return (quads_loop l i g))"
proof (induction l i g rule: quads_loop.induct)
  case (1 last48 i groups)
  show ?case
  proof (cases "i < 12")
    case True
    let ?start = "int (length last48) - (int i + 1) * 4"
    let ?g = "join_empty (slice last48 ?start (?start + 4)) # groups"
    have "decoder_step (Loop last48 i groups) (Loop last48 (i + 1) ?g)"
      using True by (rule loop_body) simp
    moreover have "decoder_step\<^sup>*\<^sup>* (Loop last48 (i + 1) ?g) (Return (quads_loop last48 (i + 1) ?g))"
      by (rule "1.IH" [OF True refl])
    moreover have "quads_loop last48 i groups = quads_loop last48 (i + 1) ?g"
      using True by (subst quads_loop.simps) (simp add: Let_def)
    ultimately show ?thesis
      by (simp only: converse_rtranclp_into_rtranclp)
  next
    case False
    then have "decoder_step (Loop last48 i groups) (Return groups)"
      by (rule loop_exit)
    moreover have "quads_loop last48 i groups = groups"
      using False by (subst quads_loop.simps) simp
    ultimately show ?thesis by simp
  qed
qed

lemma decoder_run_function:
  "splitGenesToQuads s = Inr r \<Longrightarrow> decoder_run s r"
proof (cases "BigInt s")
  case (Inl e)
  assume "splitGenesToQuads s = Inr r"
  with Inl have "r = []"
    by (simp add: splitGenesToQuads_def splitGenesToQuads_try_def)
  moreover from Inl have "decoder_step (Call s) (Return [])"
    by (rule try_catch)
  ultimately show ?thesis
    by (simp add: decoder_run_def)
next
  case (Inr big)
  assume "splitGenesToQuads s = Inr r"
  with Inr have r: "r = quads_of_bigint big"
    by (simp add: splitGenesToQuads_def splitGenesToQuads_try_def)
  let ?l = "slice_from (split_chars (padStart (toString16 big) 64 ''0'')) (- 48)"
  from Inr have "decoder_step (Call s) (Loop ?l 0 [])"
    by (rule try_ok) simp_all
  moreover have "decoder_step\<^sup>*\<^sup>* (Loop ?l 0 []) (Return (quads_loop ?l 0 []))"
    by (rule loop_runs)
  ultimately have "decoder_step\<^sup>*\<^sup>* (Call s) (Return (quads_loop ?l 0 []))"
    by (rule converse_rtranclp_into_rtranclp)
  then show ?thesis
    by (simp add: decoder_run_def r quads_of_bigint_def Let_def)
qed

lemma splitGenesToQuads_returns: "\<exists>r. splitGenesToQuads s = Inr r"
  by (cases "BigInt s") (simp_all add: splitGenesToQuads_def splitGenesToQuads_try_def)

lemma decoder_run_iff: "decoder_run s r \<longleftrightarrow> splitGenesToQuads s = Inr r"
proof
  assume run: "decoder_run s r"
  from splitGenesToQuads_returns obtain r' where r': "splitGenesToQuads s = Inr r'" ..
  then have "decoder_run s r'" by (rule decoder_run_function)
  with run have "r = r'"
    unfolding decoder_run_def by (rule run_unique)
  with r' show "splitGenesToQuads s = Inr r" by simp
next
  assume "splitGenesToQuads s = Inr r"
  then show "decoder_run s r" by (rule decoder_run_function)
qed

lemma splitGenesToQuads_0:
  "splitGenesToQuads ''0'' =
     Inr [''0000'', ''0000'', ''0000'', ''0000'', ''0000'', ''0000'',
          ''0000'', ''0000'', ''0000'', ''0000'', ''0000'', ''0000'']"
proof -
  have "decimal_string ''0''"
    by (simp add: decimal_string_def is_DecimalDigit_def)
  then have "StringToBigInt ''0'' = Some (int (decimal_value ''0''))"
    by (rule StringToBigInt_decimal)
  then have "BigInt ''0'' = Inr 0"
    by (simp add: BigInt_def decimal_value_def)
  then show ?thesis
    by (simp add: splitGenesToQuads_def splitGenesToQuads_try_def quads_of_bigint_0)
qed

section \<open>The classifier\<close>

text \<open>
  On a non-empty group \<^verbatim>\<open>at(-1)\<close> is the one-character string of the dominant nibble,
  which is truthy; on an absent group the optional chain gives \<^verbatim>\<open>undefined\<close>.
\<close>

lemma opt_at_last_Some: "q \<noteq> [] \<Longrightarrow> opt_at_last (Some q) = Some [dominant q]"
  by (cases q rule: rev_cases) (simp_all add: opt_at_last_def String_at_def Let_def dominant_def)

lemma opt_at_last_None: "opt_at_last None = None"
  by (simp add: opt_at_last_def)

lemma not_truthy_absent: "\<not> truthy (opt_at_last None)"
  by (simp add: opt_at_last_None truthy_def)
lemma deriveTraitRelation_nonempty:
  assumes "a \<noteq> []" "b \<noteq> []" "c \<noteq> []"
  shows "deriveTraitRelation (Some a) (Some b) (Some c) =
     (if dominant a = dominant b \<and> dominant b = dominant c then allShare
      else if dominant a = dominant b \<and> dominant c \<noteq> dominant a then parentsOnlyShare
      else if dominant a = dominant c \<and> dominant b \<noteq> dominant c then matronKittenShare
      else if dominant b = dominant c \<and> dominant a \<noteq> dominant c then sireKittenShare
      else mutation)"
proof -
  have t: "truthy (Some [x])" for x
    by (simp add: truthy_def)
  have e: "(Some [x] = Some [y]) = (x = y)" for x y :: char
    by simp
  show ?thesis
    unfolding deriveTraitRelation_def Let_def opt_at_last_Some [OF assms(1)]
      opt_at_last_Some [OF assms(2)] opt_at_last_Some [OF assms(3)]
    by (simp only: t e simp_thms if_True)
qed

section \<open>Properties of the classifier\<close>

text \<open>
  \<^bold>\<open>Claim C1.\<close> When the three trait groups are present and non-empty, with dominant nibbles
  \<open>m\<close>, \<open>s\<close>, \<open>k\<close> (the last character of each group): if all three are equal the
  result is \<open>allShare\<close>; if \<open>m = s\<close> and \<open>k\<close> differs it is \<open>parentsOnlyShare\<close>; if
  \<open>m = k\<close> and \<open>s\<close> differs it is \<open>matronKittenShare\<close> (the specification's
  matronOffspringShare); if \<open>s = k\<close> and \<open>m\<close> differs it is \<open>sireKittenShare\<close> (the
  specification's sireOffspringShare); if the three are pairwise distinct it is \<open>mutation\<close>.
  The five examples of the specification are included.
\<close>

theorem classifier_cases:
  assumes "matronQuad \<noteq> []" "sireQuad \<noteq> []" "kittenQuad \<noteq> []"
  shows "(let m = dominant matronQuad; s = dominant sireQuad; k = dominant kittenQuad;
              r = deriveTraitRelation (Some matronQuad) (Some sireQuad) (Some kittenQuad)
          in (m = s \<and> s = k \<longrightarrow> r = allShare) \<and>
             (m = s \<and> k \<noteq> m \<longrightarrow> r = parentsOnlyShare) \<and>
             (m = k \<and> s \<noteq> k \<longrightarrow> r = matronKittenShare) \<and>
             (s = k \<and> m \<noteq> k \<longrightarrow> r = sireKittenShare) \<and>
             (m \<noteq> s \<and> m \<noteq> k \<and> s \<noteq> k \<longrightarrow> r = mutation)) \<and>
         deriveTraitRelation (Some ''1234'') (Some ''5674'') (Some ''9994'') = allShare \<and>
         deriveTraitRelation (Some ''1235'') (Some ''5675'') (Some ''9996'') = parentsOnlyShare \<and>
         deriveTraitRelation (Some ''1235'') (Some ''5676'') (Some ''9995'') = matronKittenShare \<and>
         deriveTraitRelation (Some ''1236'') (Some ''5675'') (Some ''9995'') = sireKittenShare \<and>
         deriveTraitRelation (Some ''1236'') (Some ''5677'') (Some ''9998'') = mutation"
proof -
  have ex: 
    "deriveTraitRelation (Some ''1234'') (Some ''5674'') (Some ''9994'') = allShare"
    "deriveTraitRelation (Some ''1235'') (Some ''5675'') (Some ''9996'') = parentsOnlyShare"
    "deriveTraitRelation (Some ''1235'') (Some ''5676'') (Some ''9995'') = matronKittenShare"
    "deriveTraitRelation (Some ''1236'') (Some ''5675'') (Some ''9995'') = sireKittenShare"
    "deriveTraitRelation (Some ''1236'') (Some ''5677'') (Some ''9998'') = mutation"
    by (simp_all add: deriveTraitRelation_nonempty dominant_def)
  show ?thesis
    by (simp add: Let_def deriveTraitRelation_nonempty [OF assms] ex)
qed

theorem classifier_cases_witness:
  "deriveTraitRelation (Some ''00a7'') (Some ''1b27'') (Some ''c437'') = allShare \<and>
   deriveTraitRelation (Some ''00a7'') (Some ''1b27'') (Some ''c43e'') = parentsOnlyShare \<and>
   deriveTraitRelation (Some ''00a7'') (Some ''1b2e'') (Some ''c437'') = matronKittenShare \<and>
   deriveTraitRelation (Some ''00ae'') (Some ''1b27'') (Some ''c437'') = sireKittenShare \<and>
   deriveTraitRelation (Some ''00a7'') (Some ''1b2e'') (Some ''c431'') = mutation"
proof (intro conjI)
  show "deriveTraitRelation (Some ''00a7'') (Some ''1b27'') (Some ''c437'') = allShare"
    using classifier_cases [of "''00a7''" "''1b27''" "''c437''"]
    by (simp add: Let_def dominant_def)
  show "deriveTraitRelation (Some ''00a7'') (Some ''1b27'') (Some ''c43e'') = parentsOnlyShare"
    using classifier_cases [of "''00a7''" "''1b27''" "''c43e''"]
    by (simp add: Let_def dominant_def)
  show "deriveTraitRelation (Some ''00a7'') (Some ''1b2e'') (Some ''c437'') = matronKittenShare"
    using classifier_cases [of "''00a7''" "''1b2e''" "''c437''"]
    by (simp add: Let_def dominant_def)
  show "deriveTraitRelation (Some ''00ae'') (Some ''1b27'') (Some ''c437'') = sireKittenShare"
    using classifier_cases [of "''00ae''" "''1b27''" "''c437''"]
    by (simp add: Let_def dominant_def)
  show "deriveTraitRelation (Some ''00a7'') (Some ''1b2e'') (Some ''c431'') = mutation"
    using classifier_cases [of "''00a7''" "''1b2e''" "''c431''"]
    by (simp add: Let_def dominant_def)
qed

text \<open>
  \<^bold>\<open>Claim C5.\<close> When any of the three trait groups is absent (\<^verbatim>\<open>undefined\<close>), the
  classifier returns \<open>mutation\<close>.
\<close>

theorem classifier_absent_is_mutation:
  assumes "matronQuad = None \<or> sireQuad = None \<or> kittenQuad = None"
  shows "deriveTraitRelation matronQuad sireQuad kittenQuad = mutation"
proof -
  have "\<not> truthy (opt_at_last matronQuad) \<or> \<not> truthy (opt_at_last sireQuad) \<or>
        \<not> truthy (opt_at_last kittenQuad)"
    using assms not_truthy_absent by blast
  then show ?thesis
    unfolding deriveTraitRelation_def Let_def by (simp only: de_Morgan_conj [symmetric] if_False)
qed

theorem classifier_absent_is_mutation_witness:
  "deriveTraitRelation None (Some ''5674'') (Some ''9994'') = mutation \<and>
   deriveTraitRelation (Some ''1234'') None (Some ''9994'') = mutation \<and>
   deriveTraitRelation (Some ''1234'') (Some ''5674'') None = mutation \<and>
   deriveTraitRelation None None None = mutation"
proof (intro conjI)
  show "deriveTraitRelation None (Some ''5674'') (Some ''9994'') = mutation"
    by (rule classifier_absent_is_mutation) simp
  show "deriveTraitRelation (Some ''1234'') None (Some ''9994'') = mutation"
    by (rule classifier_absent_is_mutation) simp
  show "deriveTraitRelation (Some ''1234'') (Some ''5674'') None = mutation"
    by (rule classifier_absent_is_mutation) simp
  show "deriveTraitRelation None None None = mutation"
    by (rule classifier_absent_is_mutation) simp
qed

text \<open>
  \<^bold>\<open>Claim C9.\<close> The result of the classifier depends only on the last character of each
  argument: two triples of non-empty trait groups whose last characters agree position by
  position are classified alike, whatever their recessive nibbles are.
\<close>

theorem classifier_depends_on_dominant_only:
  assumes "a \<noteq> []" "b \<noteq> []" "c \<noteq> []" "a' \<noteq> []" "b' \<noteq> []" "c' \<noteq> []"
    and "last a = last a'" "last b = last b'" "last c = last c'"
  shows "deriveTraitRelation (Some a) (Some b) (Some c) =
         deriveTraitRelation (Some a') (Some b') (Some c')"
proof -
  have "dominant a = dominant a'" "dominant b = dominant b'" "dominant c = dominant c'"
    using assms(7-9) by (simp_all only: dominant_def)
  then show ?thesis
    by (simp only: deriveTraitRelation_nonempty [OF assms(1-3)]
        deriveTraitRelation_nonempty [OF assms(4-6)])
qed

theorem classifier_depends_on_dominant_only_witness:
  "deriveTraitRelation (Some ''1235'') (Some ''5676'') (Some ''9995'') =
   deriveTraitRelation (Some ''fff5'') (Some ''0006'') (Some ''abc5'')"
  by (rule classifier_depends_on_dominant_only) simp_all

section \<open>Properties of the decoder\<close>

text \<open>
  \<^bold>\<open>Claim C2.\<close> For every valid non-negative decimal string the decoder returns exactly
  12 trait groups, each a string of exactly 4 hexadecimal characters.
\<close>

theorem decoder_twelve_groups_of_four:
  assumes "decimal_string s"
  shows "\<exists>groups. splitGenesToQuads s = Inr groups \<and> length groups = 12 \<and>
           (\<forall>g \<in> set groups. length g = 4 \<and> list_all is_HexDigit g)"
proof -
  let ?w = "hex_fixed 48 (decimal_value s)"
  have r: "splitGenesToQuads s = Inr (spec_groups ?w)"
    using assms by (simp add: splitGenesToQuads_decimal spec_decode_hex_fixed)
  have "length g = 4 \<and> list_all is_HexDigit g" if "g \<in> set (spec_groups ?w)" for g
  proof -
    from spec_groups_shape [OF _ that] have "length g = 4" and "set g \<subseteq> set ?w"
      by (simp_all add: length_hex_fixed)
    then show ?thesis
      using hex_fixed_HexDigit by (auto simp add: list_all_iff)
  qed
  with r show ?thesis
    by (simp add: length_spec_groups)
qed

theorem decoder_twelve_groups_of_four_witness:
  "decimal_string ''516352335370699298479502521440663305549144782790866772226681625116431110'' \<and>
   (\<exists>groups. splitGenesToQuads
       ''516352335370699298479502521440663305549144782790866772226681625116431110'' = Inr groups \<and>
     length groups = 12 \<and> (\<forall>g \<in> set groups. length g = 4 \<and> list_all is_HexDigit g))"
proof -
  have d: "decimal_string ''516352335370699298479502521440663305549144782790866772226681625116431110''"
    by (simp add: decimal_string_def is_DecimalDigit_def)
  from decoder_twelve_groups_of_four [OF d] d show ?thesis
    by (rule_tac conjI)
qed

text \<open>
  \<^bold>\<open>Claim C3.\<close> For every valid non-negative decimal string the output of the decoder is
  the one the specification's algorithm gives (\<open>spec_decode\<close>): the value of the string,
  rendered in hexadecimal and padded on the left with zeros to 64 digits, cut to its rightmost
  48 digits, and partitioned into 12 consecutive groups of 4 digits from the most significant
  end to the least significant one. Equivalently, the concatenation of the 12 groups in output
  order is the rightmost 48 digits of the padded rendering.
\<close>

theorem decoder_follows_algorithm:
  assumes "decimal_string s"
  shows "splitGenesToQuads s = Inr (spec_decode s) \<and>
         concat (spec_decode s) = rightmost 48 (spec_hex64 (decimal_value s))"
proof -
  have "length (rightmost 48 (spec_hex64 (decimal_value s))) = 48"
    by (simp add: rightmost_spec_hex64 length_hex_fixed)
  then have "concat (spec_decode s) = rightmost 48 (spec_hex64 (decimal_value s))"
    unfolding spec_decode_def by (rule concat_spec_groups)
  with assms show ?thesis
    by (simp add: splitGenesToQuads_decimal)
qed

theorem decoder_follows_algorithm_witness:
  "decimal_string ''115792089237316195417293979057195601385746399497042312755972129615122237423628'' \<and>
   splitGenesToQuads ''115792089237316195417293979057195601385746399497042312755972129615122237423628'' =
     Inr [''0001'', ''0002'', ''0003'', ''0004'', ''0005'', ''0006'',
          ''0007'', ''0008'', ''0009'', ''000a'', ''000b'', ''000c'']"
proof -
  have d: "decimal_string ''115792089237316195417293979057195601385746399497042312755972129615122237423628''"
    by (simp add: decimal_string_def is_DecimalDigit_def)
  from decoder_follows_algorithm [OF d] d show ?thesis
    by (simp only: spec_decode_example simp_thms)
qed

text \<open>
  \<^bold>\<open>Claim C4.\<close> The claim says that the decoder returns the empty sequence for every
  malformed input, the empty string included. \<^verbatim>\<open>BigInt("")\<close> does not throw: it is
  \<^verbatim>\<open>0n\<close>, so on the empty string the \<^verbatim>\<open>catch\<close> branch is not taken and the decoder
  returns the twelve groups of the value zero.
\<close>

theorem decoder_on_empty_string:
  "splitGenesToQuads '''' =
     Inr [''0000'', ''0000'', ''0000'', ''0000'', ''0000'', ''0000'',
          ''0000'', ''0000'', ''0000'', ''0000'', ''0000'', ''0000'']"
  by (simp add: splitGenesToQuads_def splitGenesToQuads_try_def BigInt_empty quads_of_bigint_0)

text \<open>
  \<^bold>\<open>Claim C6.\<close> The decoder is total and raises nothing: for every input string it returns
  a sequence of trait groups, and whenever \<^verbatim>\<open>BigInt\<close> throws, the result is the empty
  sequence.
\<close>

theorem decoder_never_raises:
  "(\<exists>groups. splitGenesToQuads s = Inr groups) \<and>
   (\<forall>e. BigInt s = Inl e \<longrightarrow> splitGenesToQuads s = Inr [])"
  by (cases "BigInt s") (simp_all add: splitGenesToQuads_def splitGenesToQuads_try_def)

theorem decoder_never_raises_witness:
  "BigInt ''abc'' = Inl SyntaxError \<and> splitGenesToQuads ''abc'' = Inr []"
  using decoder_never_raises [of "''abc''"] BigInt_abc by simp

text \<open>
  \<^bold>\<open>Claim C7.\<close> The decoder is deterministic: every input string has a run, and two runs
  of the decoder on the same input string return the same sequence. Runs are those of the step
  relation \<open>decoder_step\<close>; the library calls are functions of their arguments, as ECMAScript
  specifies them.
\<close>

theorem decoder_deterministic:
  "(\<exists>r. decoder_run s r) \<and>
   (\<forall>r1 r2. decoder_run s r1 \<and> decoder_run s r2 \<longrightarrow> r1 = r2)"
proof
  from splitGenesToQuads_returns obtain r where "splitGenesToQuads s = Inr r" ..
  then have "decoder_run s r" by (rule decoder_run_function)
  then show "\<exists>r. decoder_run s r" ..
next
  show "\<forall>r1 r2. decoder_run s r1 \<and> decoder_run s r2 \<longrightarrow> r1 = r2"
    unfolding decoder_run_def by (blast intro: run_unique)
qed

theorem decoder_deterministic_witness:
  "decoder_run ''0''
     [''0000'', ''0000'', ''0000'', ''0000'', ''0000'', ''0000'',
      ''0000'', ''0000'', ''0000'', ''0000'', ''0000'', ''0000''] \<and>
   \<not> decoder_run ''0'' []"
proof -
  let ?z = "[''0000'', ''0000'', ''0000'', ''0000'', ''0000'', ''0000'',
      ''0000'', ''0000'', ''0000'', ''0000'', ''0000'', ''0000'']"
  have a: "decoder_run ''0'' ?z"
    using splitGenesToQuads_0 by (rule decoder_run_function)
  have "\<not> decoder_run ''0'' []"
  proof
    assume "decoder_run ''0'' []"
    with a decoder_deterministic [of "''0''"] have "?z = []" by blast
    then show False by simp
  qed
  with a show ?thesis ..
qed

text \<open>
  \<^bold>\<open>Claim C8.\<close> For every input string the sequence returned by the decoder has length 0
  or 12; no input gives a shorter non-empty sequence.
\<close>

theorem decoder_length_0_or_12:
  "\<exists>groups. splitGenesToQuads s = Inr groups \<and> (length groups = 0 \<or> length groups = 12)"
  by (cases "BigInt s")
     (simp_all add: splitGenesToQuads_def splitGenesToQuads_try_def length_quads_of_bigint)

text \<open>
  \<^bold>\<open>Claim C10.\<close> The decoder makes no range check, and its result depends only on the value
  of the input modulo \<open>2 ^ 192\<close>: two valid non-negative decimal strings whose values are
  congruent modulo \<open>2 ^ 192\<close> are decoded to the same sequence, also when a value is
  \<open>2 ^ 256\<close> or more.
\<close>

theorem decoder_value_mod_2_192:
  assumes "decimal_string s" "decimal_string t"
    and "decimal_value s mod 2 ^ 192 = decimal_value t mod 2 ^ 192"
  shows "splitGenesToQuads s = splitGenesToQuads t"
proof -
  have p: "(2::nat) ^ 192 = 16 ^ 48" by simp
  from assms(3) have "hex_fixed 48 (decimal_value s mod 16 ^ 48) =
      hex_fixed 48 (decimal_value t mod 16 ^ 48)"
    by (simp only: p)
  then have "hex_fixed 48 (decimal_value s) = hex_fixed 48 (decimal_value t)"
    by (simp only: hex_fixed_mod)
  then show ?thesis
    using assms(1,2) by (simp add: splitGenesToQuads_decimal spec_decode_hex_fixed)
qed

theorem decoder_value_mod_2_192_witness:
  "decimal_string ''5'' \<and>
   decimal_string ''115792089237316195423570985008687907853269984665640564039457584007913129639941'' \<and>
   decimal_value ''5'' mod 2 ^ 192 =
   decimal_value ''115792089237316195423570985008687907853269984665640564039457584007913129639941''
     mod 2 ^ 192 \<and>
   splitGenesToQuads ''5'' =
   splitGenesToQuads ''115792089237316195423570985008687907853269984665640564039457584007913129639941''"
proof -
  have a: "decimal_string ''5''"
    by (simp add: decimal_string_def is_DecimalDigit_def)
  have b: "decimal_string ''115792089237316195423570985008687907853269984665640564039457584007913129639941''"
    by (simp add: decimal_string_def is_DecimalDigit_def)
  have c: "decimal_value ''5'' mod 2 ^ 192 =
     decimal_value ''115792089237316195423570985008687907853269984665640564039457584007913129639941''
       mod 2 ^ 192"
    by (simp add: decimal_value_def)
  from decoder_value_mod_2_192 [OF a b c] a b c show ?thesis
    by (intro conjI)
qed

end
